theory Spec2Isabelle
  imports Main
begin

section \<open>Strings and character classes\<close>

text \<open>
  A JavaScript string is modelled as a \<^typ>\<open>string\<close>, one \<^typ>\<open>char\<close> per code unit.
  The model interprets the ASCII code units only: the character classes of the regular
  expressions of the source are ASCII ranges, and \<open>toUpperCase\<close>, \<open>toLowerCase\<close> and
  \<open>trim\<close> are modelled on ASCII (code units from 128 on are left alone by the case
  maps and are no white space here).
\<close>

definition isUpper :: "char \<Rightarrow> bool" where
  \<comment> \<open>the class \<open>[A-Z]\<close>\<close>
  "isUpper c = (65 \<le> (of_char c :: nat) \<and> (of_char c :: nat) \<le> 90)"

definition isLower :: "char \<Rightarrow> bool" where
  \<comment> \<open>the class \<open>[a-z]\<close>\<close>
  "isLower c = (97 \<le> (of_char c :: nat) \<and> (of_char c :: nat) \<le> 122)"

definition isDigit :: "char \<Rightarrow> bool" where
  \<comment> \<open>the class \<open>[0-9]\<close>\<close>
  "isDigit c = (48 \<le> (of_char c :: nat) \<and> (of_char c :: nat) \<le> 57)"

definition isAlnum :: "char \<Rightarrow> bool" where
  \<comment> \<open>the class \<open>[a-zA-Z0-9]\<close>\<close>
  "isAlnum c = (isLower c \<or> isUpper c \<or> isDigit c)"

definition isUpperDigit :: "char \<Rightarrow> bool" where
  \<comment> \<open>the class \<open>[A-Z0-9]\<close>\<close>
  "isUpperDigit c = (isUpper c \<or> isDigit c)"

definition isLowerDigit :: "char \<Rightarrow> bool" where
  \<comment> \<open>the class \<open>[a-z0-9]\<close>\<close>
  "isLowerDigit c = (isLower c \<or> isDigit c)"

definition isWhiteSpace :: "char \<Rightarrow> bool" where
  \<comment> \<open>what \<open>String.prototype.trim\<close> removes, among the ASCII code units:
      tab, line feed, vertical tab, form feed, carriage return, space\<close>
  "isWhiteSpace c = ((9 \<le> (of_char c :: nat) \<and> (of_char c :: nat) \<le> 13) \<or> (of_char c :: nat) = 32)"

definition toUpperChar :: "char \<Rightarrow> char" where
  "toUpperChar c = (if isLower c then char_of ((of_char c :: nat) - 32) else c)"

definition toLowerChar :: "char \<Rightarrow> char" where
  "toLowerChar c = (if isUpper c then char_of ((of_char c :: nat) + 32) else c)"

definition toUpperCase :: "string \<Rightarrow> string" where
  "toUpperCase s = map toUpperChar s"

definition toLowerCase :: "string \<Rightarrow> string" where
  "toLowerCase s = map toLowerChar s"

definition trim :: "string \<Rightarrow> string" where
  "trim s = rev (dropWhile isWhiteSpace (rev (dropWhile isWhiteSpace s)))"

text \<open>\<open>s.split(sep)\<close> for a separator of one code unit: the result is never empty,
  \<open>"".split(" ")\<close> is \<open>[""]\<close>, and two separators in a row give an empty piece.\<close>

fun split :: "char \<Rightarrow> string \<Rightarrow> string list" where
  "split sep [] = [[]]"
| "split sep (c # cs) =
     (if c = sep then [] # split sep cs
      else (case split sep cs of
              [] \<Rightarrow> [[c]]
            | p # ps \<Rightarrow> (c # p) # ps))"

text \<open>\<open>xs.join(sep)\<close>.\<close>

fun join :: "string \<Rightarrow> string list \<Rightarrow> string" where
  "join sep [] = []"
| "join sep [x] = x"
| "join sep (x # y # ys) = x @ sep @ join sep (y # ys)"

text \<open>\<open>s.replaceAll('"', "")\<close>.\<close>

definition removeQuotes :: "string \<Rightarrow> string" where
  "removeQuotes s = filter (\<lambda>c. c \<noteq> CHR 0x22) s"

text \<open>\<open>s.replace(/([A-Z])/g, " $1")\<close>: a space goes in front of every upper-case letter.\<close>

definition spaceBeforeUpper :: "string \<Rightarrow> string" where
  "spaceBeforeUpper s = concat (map (\<lambda>c. if isUpper c then [CHR '' '', c] else [c]) s)"


section \<open>Naming styles and their recognition patterns\<close>

datatype naming_style = camel | pascal | upper_snake | lower_snake

text \<open>
  The four regular expressions of \<open>getNamingStyleFromNamedItems\<close>. They are anchored at
  both ends and carry no flag, so \<open>test\<close> asks for a match of the whole string.
  The tail \<open>[P]*(_[P]+)*$\<close> of the two snake patterns is read by \<open>snakeTail\<close>, whose flag
  says that an underscore has just been read and a character of the class must follow
  (the underscore is in neither class, so the reading is deterministic).
\<close>

fun snakeTail :: "(char \<Rightarrow> bool) \<Rightarrow> bool \<Rightarrow> string \<Rightarrow> bool" where
  "snakeTail P pending [] = (\<not> pending)"
| "snakeTail P pending (c # cs) =
     (if P c then snakeTail P False cs
      else if c = CHR ''_'' \<and> \<not> pending then snakeTail P True cs
      else False)"

definition camelPattern :: "string \<Rightarrow> bool" where
  \<comment> \<open>\<open>/^[a-z][a-zA-Z0-9]*$/\<close>\<close>
  "camelPattern s = (case s of [] \<Rightarrow> False | c # cs \<Rightarrow> isLower c \<and> list_all isAlnum cs)"

definition pascalPattern :: "string \<Rightarrow> bool" where
  \<comment> \<open>\<open>/^[A-Z][a-zA-Z0-9]*$/\<close>\<close>
  "pascalPattern s = (case s of [] \<Rightarrow> False | c # cs \<Rightarrow> isUpper c \<and> list_all isAlnum cs)"

definition upperSnakePattern :: "string \<Rightarrow> bool" where
  \<comment> \<open>\<open>/^[A-Z][A-Z0-9]*(_[A-Z0-9]+)*$/\<close>\<close>
  "upperSnakePattern s =
     (case s of [] \<Rightarrow> False | c # cs \<Rightarrow> isUpper c \<and> snakeTail isUpperDigit False cs)"

definition lowerSnakePattern :: "string \<Rightarrow> bool" where
  \<comment> \<open>\<open>/^[a-z][a-z0-9]*(_[a-z0-9]+)*$/\<close>\<close>
  "lowerSnakePattern s =
     (case s of [] \<Rightarrow> False | c # cs \<Rightarrow> isLower c \<and> snakeTail isLowerDigit False cs)"

fun stylePattern :: "naming_style \<Rightarrow> string \<Rightarrow> bool" where
  "stylePattern camel = camelPattern"
| "stylePattern pascal = pascalPattern"
| "stylePattern upper_snake = upperSnakePattern"
| "stylePattern lower_snake = lowerSnakePattern"


text \<open>
  The same four expressions as regular expressions with their language, to compare the
  readers above with: a character class, one expression after another, and repetition.
\<close>

datatype regex =
    Class "char \<Rightarrow> bool"
  | Then regex regex
  | Star regex

inductive matches :: "regex \<Rightarrow> string \<Rightarrow> bool" where
  one: "P c \<Longrightarrow> matches (Class P) [c]"
| both: "matches r u \<Longrightarrow> matches q v \<Longrightarrow> matches (Then r q) (u @ v)"
| none: "matches (Star r) []"
| more: "matches r u \<Longrightarrow> matches (Star r) v \<Longrightarrow> matches (Star r) (u @ v)"

definition OneOrMore :: "regex \<Rightarrow> regex" where
  "OneOrMore r = Then r (Star r)"

definition underscore :: regex where
  "underscore = Class (\<lambda>c. c = CHR ''_'')"

definition camelRegex :: regex where
  "camelRegex = Then (Class isLower) (Star (Class isAlnum))"

definition pascalRegex :: regex where
  "pascalRegex = Then (Class isUpper) (Star (Class isAlnum))"

definition upperSnakeRegex :: regex where
  "upperSnakeRegex =
     Then (Class isUpper)
       (Then (Star (Class isUpperDigit)) (Star (Then underscore (OneOrMore (Class isUpperDigit)))))"

definition lowerSnakeRegex :: regex where
  "lowerSnakeRegex =
     Then (Class isLower)
       (Then (Star (Class isLowerDigit)) (Star (Then underscore (OneOrMore (Class isLowerDigit)))))"


section \<open>The style classifier\<close>

record named_item =
  binding :: string

definition getNamingStyleFromNamedItems :: "named_item list \<Rightarrow> naming_style option" where
  "getNamingStyleFromNamedItems items =
     (if length items = 0 then None
      else if list_all (\<lambda>item. camelPattern (binding item)) items then Some camel
      else if list_all (\<lambda>item. pascalPattern (binding item)) items then Some pascal
      else if list_all (\<lambda>item. upperSnakePattern (binding item)) items then Some upper_snake
      else if list_all (\<lambda>item. lowerSnakePattern (binding item)) items then Some lower_snake
      else None)"


section \<open>The name transcoder\<close>

definition nameParts :: "string \<Rightarrow> string list" where
  "nameParts nameAsPascalCase = split CHR '' '' (trim (spaceBeforeUpper nameAsPascalCase))"

definition styleNames :: "string \<Rightarrow> naming_style \<Rightarrow> string" where
  "styleNames nameAsPascalCase style =
     (if style = pascal then nameAsPascalCase
      else let parts = nameParts nameAsPascalCase in
        if style = camel then
          (case parts of
             [] \<Rightarrow> []
           | p # ps \<Rightarrow> toLowerCase p @ join [] ps)
        else if style = upper_snake then join ''_'' (map toUpperCase parts)
        else if style = lower_snake then join ''_'' (map toLowerCase parts)
        else nameAsPascalCase)"


section \<open>Configuration, type-checker results and the operator\<close>

record durable_object_binding =
  name :: string
  class_name :: string

text \<open>The part of the wrangler configuration that the script reads. A key that is
  absent from the configuration is \<open>None\<close>.\<close>

record config =
  configPath :: "string option"
  main :: "string option"
  kv_namespaces :: "named_item list option"
  services :: "named_item list option"
  d1_databases :: "named_item list option"
  vectorize :: "named_item list option"
  durable_objects_bindings :: "durable_object_binding list"

text \<open>
  The type of the resolver file's default export, as the type checker hands it over:
  a union with its member types, a string literal type, or any other type. The script
  looks at a type through \<open>isUnion\<close>, \<open>isStringLiteral\<close>, \<open>types\<close> and
  \<open>checker.typeToString\<close> only. The printer belongs to the TypeScript library, so what
  it returns for a type is part of the input here: every type carries its printed form,
  and \<open>typeToString\<close> reads it. Nothing is assumed about how a printed form relates to
  the type (quoting, escapes, truncation of long forms).
\<close>

datatype ts_type =
    UnionType string "ts_type list"
  | StringLiteralType string
  | OtherType string

fun typeToString :: "ts_type \<Rightarrow> string" where
  "typeToString (UnionType printed types) = printed"
| "typeToString (StringLiteralType printed) = printed"
| "typeToString (OtherType printed) = printed"

text \<open>What the toolchain and the clock give to one run: the path of the TypeScript
  library if it is installed, whether the program has the resolver file and the checker
  a symbol for it, the type of its default export if there is one, and the ISO string
  of the current UTC time.\<close>

record environment =
  typescriptPath :: "string option"
  resolverFileFound :: bool
  resolverSymbolFound :: bool
  defaultExportType :: "ts_type option"
  isoNow :: string

text \<open>A prompt returns the operator's answer or the cancel symbol.\<close>

datatype 'a answer = Cancelled | Answered 'a

record operator =
  select_answer :: "naming_style answer"
  confirm_answer :: "bool answer"

record migration =
  tag :: string
  new_sqlite_classes :: "string list"

record config_patch =
  durable_objects :: "durable_object_binding list"
  migrations :: "migration list"

text \<open>What a run does that can be seen from outside, in order.\<close>

datatype event =
    Warn_found nat
  | Log_item string
  | Log_blank
  | Info_detected naming_style
  | Select_prompt
  | Confirm_prompt nat
  | Patch_config string config_patch

text \<open>How a run ends: \<open>process.exit(code)\<close>, an error thrown to the top level, or the
  end of the script.\<close>

datatype ending = Exited nat | Threw string | Completed

fun exitStatus :: "ending \<Rightarrow> nat" where
  "exitStatus (Exited code) = code"
| "exitStatus (Threw message) = 1"
| "exitStatus Completed = 0"

definition assertNotCancelled :: "'a answer \<Rightarrow> nat + 'a" where
  \<comment> \<open>\<open>Inl code\<close>: the process exits with that status\<close>
  "assertNotCancelled v = (case v of Cancelled \<Rightarrow> Inl 1 | Answered x \<Rightarrow> Inr x)"


section \<open>Style detection over the binding categories\<close>

definition bindingKeys :: "(config \<Rightarrow> named_item list option) list" where
  "bindingKeys = [kv_namespaces, services, d1_databases, vectorize]"

text \<open>The \<open>for\<close> loop of \<open>getNamingStyleFromOtherBindings\<close>.\<close>

fun styleFromKeys :: "config \<Rightarrow> (config \<Rightarrow> named_item list option) list \<Rightarrow> naming_style option" where
  "styleFromKeys cfg [] = None"
| "styleFromKeys cfg (key # keys) =
     (case key cfg of
        None \<Rightarrow> styleFromKeys cfg keys
      | Some v \<Rightarrow>
          (case getNamingStyleFromNamedItems v of
             Some maybeStyle \<Rightarrow> Some maybeStyle
           | None \<Rightarrow> styleFromKeys cfg keys))"

definition getNamingStyleFromOtherBindings ::
  "config \<Rightarrow> operator \<Rightarrow> event list \<times> (nat + naming_style)" where
  "getNamingStyleFromOtherBindings cfg oper =
     (case styleFromKeys cfg bindingKeys of
        Some maybeStyle \<Rightarrow> ([Info_detected maybeStyle], Inr maybeStyle)
      | None \<Rightarrow> ([Select_prompt], assertNotCancelled (select_answer oper)))"


section \<open>The script\<close>

text \<open>\<open>createTypescript\<close> and the lookups up to the type of the default export: each
  failure is an error thrown to the top level.\<close>

definition resolveDefaultType :: "config \<Rightarrow> environment \<Rightarrow> string + ts_type" where
  "resolveDefaultType cfg env =
     (if typescriptPath env = None then Inl ''TypeScript must be installed to use this command''
      else if main cfg = None then Inl ''Worker main was not found''
      else if \<not> resolverFileFound env then Inl ''Resolver file was not found''
      else if \<not> resolverSymbolFound env then Inl ''resolver file symbol was not found''
      else (case defaultExportType env of
              None \<Rightarrow> Inl ''Default export was not found''
            | Some t \<Rightarrow> Inr t))"

definition candidateNames :: "ts_type \<Rightarrow> string list option" where
  "candidateNames defaultType =
     (case defaultType of
        UnionType printed types \<Rightarrow> Some (map (\<lambda>it. removeQuotes (typeToString it)) types)
      | StringLiteralType printed \<Rightarrow> Some [removeQuotes (typeToString defaultType)]
      | OtherType printed \<Rightarrow> None)"

definition netNew :: "string list \<Rightarrow> string list \<Rightarrow> string list" where
  \<comment> \<open>\<open>discovered.filter((name) => !existingDurableObjects.includes(name))\<close>\<close>
  "netNew existingDurableObjects discovered =
     filter (\<lambda>n. n \<notin> set existingDurableObjects) discovered"

definition patchPayload :: "string list \<Rightarrow> naming_style \<Rightarrow> string \<Rightarrow> config_patch" where
  "patchPayload itemsExtendingDurableObject namingStyle now =
     \<lparr> durable_objects =
         map (\<lambda>it. \<lparr> name = styleNames it namingStyle, class_name = it \<rparr>)
           itemsExtendingDurableObject,
       migrations =
         [\<lparr> tag = now @ ''-'' @ join ''-'' itemsExtendingDurableObject,
            new_sqlite_classes = itemsExtendingDurableObject \<rparr>] \<rparr>"

definition declareObjects :: "config \<Rightarrow> environment \<Rightarrow> operator \<Rightarrow> event list \<times> ending" where
  "declareObjects cfg env oper =
     (let existingDurableObjects = map name (durable_objects_bindings cfg) in
      case resolveDefaultType cfg env of
        Inl message \<Rightarrow> ([], Threw message)
      | Inr defaultType \<Rightarrow>
          (case map_option (netNew existingDurableObjects) (candidateNames defaultType) of
             None \<Rightarrow> ([], Threw ''No Durable Objects found in your Worker'')
           | Some itemsExtendingDurableObject \<Rightarrow>
               (let report = Warn_found (length itemsExtendingDurableObject)
                               # map Log_item itemsExtendingDurableObject @ [Log_blank]
                in case getNamingStyleFromOtherBindings cfg oper of
                     (asked, Inl code) \<Rightarrow> (report @ asked, Exited code)
                   | (asked, Inr namingStyle) \<Rightarrow>
                       (let shown = report @ asked
                                      @ [Confirm_prompt (length itemsExtendingDurableObject)]
                        in case assertNotCancelled (confirm_answer oper) of
                             Inl code \<Rightarrow> (shown, Exited code)
                           | Inr confirmed \<Rightarrow>
                               if \<not> confirmed then (shown, Exited 0)
                               else (case configPath cfg of
                                       None \<Rightarrow> (shown, Threw ''No config path found'')
                                     | Some path \<Rightarrow>
                                         (shown @ [Patch_config path
                                              (patchPayload itemsExtendingDurableObject
                                                 namingStyle (isoNow env))],
                                          Completed))))))"

text \<open>The calls of the mutation collaborator in a trace, in order.\<close>

fun patchCalls :: "event list \<Rightarrow> (string \<times> config_patch) list" where
  "patchCalls [] = []"
| "patchCalls (Patch_config path p # es) = (path, p) # patchCalls es"
| "patchCalls (e # es) = patchCalls es"


section \<open>Notions used to state the properties\<close>

definition isIdentChar :: "char \<Rightarrow> bool" where
  \<comment> \<open>a letter, a digit or the underscore\<close>
  "isIdentChar c = (isAlnum c \<or> c = CHR ''_'')"

definition styleOrder :: "naming_style list" where
  \<comment> \<open>the order in which \<open>getNamingStyleFromNamedItems\<close> tries the patterns\<close>
  "styleOrder = [camel, pascal, upper_snake, lower_snake]"

definition unanimous :: "naming_style \<Rightarrow> named_item list \<Rightarrow> bool" where
  \<comment> \<open>every binding name of the category matches the pattern of the style\<close>
  "unanimous s items = list_all (\<lambda>item. stylePattern s (binding item)) items"

definition matchedStyles :: "named_item list \<Rightarrow> naming_style list" where
  \<comment> \<open>the styles whose pattern every binding name of the category matches\<close>
  "matchedStyles items = filter (\<lambda>s. unanimous s items) styleOrder"

definition categories :: "config \<Rightarrow> named_item list list" where
  \<comment> \<open>the binding categories that the configuration has, in the order of the keys\<close>
  "categories cfg = List.map_filter (\<lambda>key. key cfg) bindingKeys"

definition quoted :: "string \<Rightarrow> string" where
  \<comment> \<open>a value between double quotes\<close>
  "quoted v = [CHR 0x22] @ v @ [CHR 0x22]"

definition existingNames :: "config \<Rightarrow> string list" where
  "existingNames cfg = map name (durable_objects_bindings cfg)"

definition report :: "string list \<Rightarrow> event list" where
  \<comment> \<open>what the script prints about the names it found\<close>
  "report items = Warn_found (length items) # map Log_item items @ [Log_blank]"

definition asked :: "config \<Rightarrow> event list" where
  \<comment> \<open>what \<open>getNamingStyleFromOtherBindings\<close> shows: the detected style, or the prompt\<close>
  "asked cfg =
     (case styleFromKeys cfg bindingKeys of
        Some s \<Rightarrow> [Info_detected s]
      | None \<Rightarrow> [Select_prompt])"

definition resolvedStyle :: "config \<Rightarrow> operator \<Rightarrow> naming_style option" where
  \<comment> \<open>the style of the run: the detected one, else the operator's choice;
      \<open>None\<close> when the style prompt is cancelled\<close>
  "resolvedStyle cfg oper =
     (case styleFromKeys cfg bindingKeys of
        Some s \<Rightarrow> Some s
      | None \<Rightarrow> (case select_answer oper of Cancelled \<Rightarrow> None | Answered s \<Rightarrow> Some s))"


section \<open>Example inputs\<close>

definition kvConfig :: config where
  "kvConfig =
     \<lparr> configPath = Some ''wrangler.jsonc'', main = Some ''src/index.ts'',
       kv_namespaces = Some [\<lparr>binding = ''KV_ONE''\<rparr>, \<lparr>binding = ''KV_TWO''\<rparr>],
       services = None, d1_databases = None, vectorize = None,
       durable_objects_bindings = [\<lparr>name = ''Counter'', class_name = ''Counter''\<rparr>] \<rparr>"

definition bareConfig :: config where
  "bareConfig =
     \<lparr> configPath = Some ''wrangler.jsonc'', main = Some ''src/index.ts'',
       kv_namespaces = None, services = Some [], d1_databases = None, vectorize = None,
       durable_objects_bindings = [] \<rparr>"

definition overlapConfig :: config where
  "overlapConfig =
     \<lparr> configPath = Some ''wrangler.jsonc'', main = Some ''src/index.ts'',
       kv_namespaces = Some [\<lparr>binding = ''FOO''\<rparr>],
       services = Some [\<lparr>binding = ''foo_bar''\<rparr>],
       d1_databases = None, vectorize = None,
       durable_objects_bindings = [] \<rparr>"

definition environmentOf :: "ts_type \<Rightarrow> environment" where
  "environmentOf t =
     \<lparr> typescriptPath = Some ''node_modules/typescript/lib/typescript.js'',
       resolverFileFound = True, resolverSymbolFound = True,
       defaultExportType = Some t, isoNow = ''2025-01-01T00:00:00.000Z'' \<rparr>"

definition counterOnly :: ts_type where
  "counterOnly = StringLiteralType (quoted ''Counter'')"

definition counterAndChatRoom :: ts_type where
  "counterAndChatRoom =
     UnionType (quoted ''Counter'' @ '' | '' @ quoted ''ChatRoom'')
       [StringLiteralType (quoted ''Counter''), StringLiteralType (quoted ''ChatRoom'')]"

definition operatorOf :: "naming_style answer \<Rightarrow> bool answer \<Rightarrow> operator" where
  "operatorOf s c = \<lparr> select_answer = s, confirm_answer = c \<rparr>"


section \<open>Characters, splitting and joining\<close>

lemma isAlnum_not_space: "isAlnum c \<Longrightarrow> c \<noteq> CHR '' ''"
  by (auto simp: isAlnum_def isLower_def isUpper_def isDigit_def)

lemma isAlnum_not_white: "isAlnum c \<Longrightarrow> \<not> isWhiteSpace c"
  by (auto simp: isAlnum_def isLower_def isUpper_def isDigit_def isWhiteSpace_def)

lemma isUpper_isAlnum: "isUpper c \<Longrightarrow> isAlnum c"
  by (simp add: isAlnum_def)

lemma isUpper_not_isLower: "isUpper c \<Longrightarrow> \<not> isLower c"
  by (auto simp: isUpper_def isLower_def)

lemma space_white: "isWhiteSpace (CHR '' '')"
  by (simp add: isWhiteSpace_def)

lemma toUpper_class: "isAlnum c \<Longrightarrow> isUpperDigit (toUpperChar c)"
  by (auto simp: isAlnum_def isUpperDigit_def isLower_def isUpper_def isDigit_def toUpperChar_def)

lemma toLower_class: "isAlnum c \<Longrightarrow> isLowerDigit (toLowerChar c)"
  by (auto simp: isAlnum_def isLowerDigit_def isLower_def isUpper_def isDigit_def toLowerChar_def)

lemma toUpper_upper: "isUpper c \<Longrightarrow> toUpperChar c = c"
  by (auto simp: isLower_def isUpper_def toUpperChar_def)

lemma toLower_upper: "isUpper c \<Longrightarrow> isLower (toLowerChar c)"
  by (auto simp: isLower_def isUpper_def toLowerChar_def)

lemma underscore_not_upperDigit: "\<not> isUpperDigit CHR ''_''"
  by (simp add: isUpperDigit_def isUpper_def isDigit_def)

lemma underscore_not_lowerDigit: "\<not> isLowerDigit CHR ''_''"
  by (simp add: isLowerDigit_def isLower_def isDigit_def)

lemma split_not_Nil: "split sep s \<noteq> []"
  by (induction s) (auto split: list.splits)

lemma split_Cons_other:
  "c \<noteq> sep \<Longrightarrow> split sep (c # cs) = (c # hd (split sep cs)) # tl (split sep cs)"
  using split_not_Nil [of sep cs] by (cases "split sep cs") auto

lemma split_Cons_sep: "split sep (sep # cs) = [] # split sep cs"
  by simp

lemma join_Cons: "join sep (p # ps) = p @ concat (map (\<lambda>q. sep @ q) ps)"
  by (induction ps arbitrary: p) auto

lemma join_empty_sep: "join [] ps = concat ps"
  by (cases ps) (simp_all add: join_Cons)

lemma trim_fixed:
  assumes "s \<noteq> []" "\<not> isWhiteSpace (hd s)" "\<not> isWhiteSpace (last s)"
  shows "trim s = s"
proof -
  have front: "dropWhile isWhiteSpace s = s"
    using assms by (simp add: dropWhile_eq_self_iff)
  have rear: "dropWhile isWhiteSpace (rev s) = rev s"
    using assms by (simp add: dropWhile_eq_self_iff hd_rev)
  show ?thesis by (simp add: trim_def front rear)
qed

lemma trim_leading: "isWhiteSpace w \<Longrightarrow> trim (w # s) = trim s"
  by (simp add: trim_def)


section \<open>The words of a PascalCase name\<close>

lemma pascalPattern_Cons: "pascalPattern (c # cs) = (isUpper c \<and> list_all isAlnum cs)"
  by (simp add: pascalPattern_def)

lemma pascal_all_alnum: "pascalPattern p \<Longrightarrow> x \<in> set p \<Longrightarrow> isAlnum x"
  by (auto simp: pascalPattern_def isUpper_isAlnum list_all_iff split: list.splits)

lemma spaceBeforeUpper_Nil: "spaceBeforeUpper [] = []"
  by (simp add: spaceBeforeUpper_def)

lemma spaceBeforeUpper_Cons:
  "spaceBeforeUpper (c # cs) =
     (if isUpper c then CHR '' '' # c # spaceBeforeUpper cs else c # spaceBeforeUpper cs)"
  by (simp add: spaceBeforeUpper_def)

lemma spaceBeforeUpper_eq_Nil: "spaceBeforeUpper cs = [] \<longleftrightarrow> cs = []"
  by (cases cs) (auto simp: spaceBeforeUpper_Cons spaceBeforeUpper_Nil)

lemma last_spaceBeforeUpper: "cs \<noteq> [] \<Longrightarrow> last (spaceBeforeUpper cs) = last cs"
  by (induction cs) (auto simp: spaceBeforeUpper_Cons spaceBeforeUpper_Nil spaceBeforeUpper_eq_Nil)

text \<open>After the spaces are put in, the first piece is what stands before the first
  upper-case letter, and every later piece is a word: an upper-case letter and then
  letters and digits.\<close>

lemma split_spaceBeforeUpper:
  assumes "list_all isAlnum cs"
  shows "list_all isAlnum (hd (split CHR '' '' (spaceBeforeUpper cs)))
       \<and> list_all pascalPattern (tl (split CHR '' '' (spaceBeforeUpper cs)))"
  using assms
proof (induction cs)
  case Nil
  then show ?case by (simp add: spaceBeforeUpper_Nil)
next
  case (Cons c cs)
  then have c: "isAlnum c" "c \<noteq> CHR '' ''" and cs: "list_all isAlnum cs"
    by (auto simp: isAlnum_not_space)
  note IH = Cons.IH [OF cs]
  show ?case
  proof (cases "isUpper c")
    case True
    then show ?thesis using IH c
      by (simp add: spaceBeforeUpper_Cons split_Cons_sep split_Cons_other pascalPattern_Cons
            del: split.simps)
  next
    case False
    then show ?thesis using IH c
      by (simp add: spaceBeforeUpper_Cons split_Cons_other del: split.simps)
  qed
qed

lemma nameParts_pascal:
  assumes "pascalPattern s"
  shows "nameParts s \<noteq> [] \<and> list_all pascalPattern (nameParts s)"
proof -
  from assms obtain c cs where s: "s = c # cs" and c: "isUpper c" and cs: "list_all isAlnum cs"
    by (auto simp: pascalPattern_def split: list.splits)
  have nsp: "c \<noteq> CHR '' ''" using c by (simp add: isAlnum_not_space isUpper_isAlnum)
  have lastok: "\<not> isWhiteSpace (last (c # spaceBeforeUpper cs))"
  proof (cases "cs = []")
    case True
    then show ?thesis using c by (simp add: spaceBeforeUpper_Nil isAlnum_not_white isUpper_isAlnum)
  next
    case False
    then have "last cs \<in> set cs" by simp
    then have "isAlnum (last cs)" using cs by (simp add: list_all_iff)
    then show ?thesis using False
      by (simp add: spaceBeforeUpper_eq_Nil last_spaceBeforeUpper isAlnum_not_white)
  qed
  have "trim (spaceBeforeUpper s) = trim (c # spaceBeforeUpper cs)"
    using c by (simp add: s spaceBeforeUpper_Cons trim_leading space_white)
  also have "\<dots> = c # spaceBeforeUpper cs"
    using lastok c by (intro trim_fixed) (simp_all add: isAlnum_not_white isUpper_isAlnum)
  finally have parts: "nameParts s = (c # hd (split CHR '' '' (spaceBeforeUpper cs)))
                                       # tl (split CHR '' '' (spaceBeforeUpper cs))"
    using nsp by (simp add: nameParts_def split_Cons_other del: split.simps)
  show ?thesis
    using split_spaceBeforeUpper [OF cs] c by (simp add: parts pascalPattern_Cons)
qed


section \<open>Reading the snake patterns\<close>

lemma snakeTail_class_run:
  "list_all P xs \<Longrightarrow>
   snakeTail P b (xs @ ys) = (if xs = [] then snakeTail P b ys else snakeTail P False ys)"
  by (induction xs arbitrary: b) simp_all

lemma snakeTail_groups:
  assumes "\<not> P CHR ''_''" "list_all (\<lambda>p. p \<noteq> [] \<and> list_all P p) ps"
  shows "snakeTail P False (concat (map (\<lambda>q. ''_'' @ q) ps))"
  using assms(2)
proof (induction ps)
  case Nil
  then show ?case by simp
next
  case (Cons p ps)
  then show ?case using assms(1) by (simp add: snakeTail_class_run)
qed

lemma snakeTail_ident:
  "snakeTail P b s \<Longrightarrow> (\<And>c. P c \<Longrightarrow> isAlnum c) \<Longrightarrow> list_all isIdentChar s"
  by (induction P b s rule: snakeTail.induct) (auto simp: isIdentChar_def split: if_splits)

lemma snakeTail_one_word:
  "snakeTail P b s \<Longrightarrow> CHR ''_'' \<notin> set s \<Longrightarrow> list_all P s"
  by (induction P b s rule: snakeTail.induct) (auto split: if_splits)

lemma stylePattern_ident: "stylePattern st s \<Longrightarrow> list_all isIdentChar s"
proof (cases st)
  case camel
  assume "stylePattern st s"
  then show ?thesis using camel
    by (auto simp: camelPattern_def isIdentChar_def isAlnum_def list_all_iff split: list.splits)
next
  case pascal
  assume "stylePattern st s"
  then show ?thesis using pascal
    by (auto simp: pascalPattern_def isIdentChar_def isAlnum_def list_all_iff split: list.splits)
next
  case upper_snake
  assume "stylePattern st s"
  then show ?thesis using upper_snake snakeTail_ident [of isUpperDigit False]
    by (auto simp: upperSnakePattern_def isIdentChar_def isAlnum_def isUpperDigit_def
          split: list.splits)
next
  case lower_snake
  assume "stylePattern st s"
  then show ?thesis using lower_snake snakeTail_ident [of isLowerDigit False]
    by (auto simp: lowerSnakePattern_def isIdentChar_def isAlnum_def isLowerDigit_def
          split: list.splits)
qed


section \<open>The pattern readers accept the languages of the regular expressions\<close>

inductive_simps matches_Class_iff: "matches (Class P) s"
inductive_simps matches_Then_iff: "matches (Then r q) s"

lemma matches_Class: "matches (Class P) s \<longleftrightarrow> (\<exists>c. s = [c] \<and> P c)"
  by (auto simp: matches_Class_iff)

lemma matches_Then: "matches (Then r q) s \<longleftrightarrow> (\<exists>u v. s = u @ v \<and> matches r u \<and> matches q v)"
  by (auto simp: matches_Then_iff)

lemma matches_Class_Then:
  "matches (Then (Class P) q) s \<longleftrightarrow> (\<exists>c cs. s = c # cs \<and> P c \<and> matches q cs)"
proof
  assume "matches (Then (Class P) q) s"
  then show "\<exists>c cs. s = c # cs \<and> P c \<and> matches q cs"
    by (auto simp: matches_Then matches_Class)
next
  assume "\<exists>c cs. s = c # cs \<and> P c \<and> matches q cs"
  then obtain c cs where s: "s = c # cs" and c: "P c" and cs: "matches q cs" by blast
  have "matches (Then (Class P) q) ([c] @ cs)"
    using matches.one [of P c, OF c] cs by (rule matches.both)
  then show "matches (Then (Class P) q) s" by (simp add: s)
qed

lemma star_class_all:
  "matches r s \<Longrightarrow> r = Star (Class P) \<Longrightarrow> list_all P s"
  by (induction rule: matches.induct) (auto simp: matches_Class)

lemma all_star_class: "list_all P s \<Longrightarrow> matches (Star (Class P)) s"
proof (induction s)
  case Nil
  show ?case by (rule matches.none)
next
  case (Cons c cs)
  then have "matches (Class P) [c]" "matches (Star (Class P)) cs"
    by (auto intro: matches.one)
  then have "matches (Star (Class P)) ([c] @ cs)" by (rule matches.more)
  then show ?case by simp
qed

lemma matches_Star_Class: "matches (Star (Class P)) s \<longleftrightarrow> list_all P s"
  using star_class_all all_star_class by blast

lemma matches_group:
  "matches (Then underscore (OneOrMore (Class P))) s
     \<longleftrightarrow> (\<exists>c cs. s = CHR ''_'' # c # cs \<and> P c \<and> list_all P cs)"
  by (auto simp: matches_Class_Then matches_Star_Class OneOrMore_def underscore_def)

lemma groups_snakeTail:
  assumes "matches r s" "r = Star (Then underscore (OneOrMore (Class P)))" "\<not> P CHR ''_''"
  shows "snakeTail P False s"
  using assms
proof (induction rule: matches.induct)
  case (more r u v)
  then obtain c cs where u: "u = CHR ''_'' # c # cs" "P c" "list_all P cs"
    by (auto simp: matches_group)
  from more have "snakeTail P False v" by simp
  then show ?case using more.prems u by (simp add: snakeTail_class_run)
qed simp_all

lemma snakeTail_groups_split:
  "snakeTail P b s \<Longrightarrow>
     (if b then \<exists>c xs ys. s = c # xs @ ys \<and> P c \<and> list_all P xs
                  \<and> matches (Star (Then underscore (OneOrMore (Class P)))) ys
      else \<exists>xs ys. s = xs @ ys \<and> list_all P xs
                  \<and> matches (Star (Then underscore (OneOrMore (Class P)))) ys)"
proof (induction P b s rule: snakeTail.induct)
  case (1 P pending)
  then show ?case by (auto intro: matches.none)
next
  case (2 P pending c cs)
  show ?case
  proof (cases "P c")
    case True
    with 2 obtain xs ys where "cs = xs @ ys" "list_all P xs"
      "matches (Star (Then underscore (OneOrMore (Class P)))) ys"
      by auto
    then show ?thesis using True
      by (cases pending) (auto intro: exI [of _ "c # xs"])
  next
    case False
    with 2 have p: "c = CHR ''_''" "\<not> pending" and t: "snakeTail P True cs"
      by (auto split: if_splits)
    with 2 False obtain d xs ys where cs: "cs = d # xs @ ys" "P d" "list_all P xs"
      and ys: "matches (Star (Then underscore (OneOrMore (Class P)))) ys"
      by auto
    have "matches (Then underscore (OneOrMore (Class P))) (CHR ''_'' # d # xs)"
      using cs by (simp add: matches_group)
    then have "matches (Star (Then underscore (OneOrMore (Class P)))) ((CHR ''_'' # d # xs) @ ys)"
      using ys by (rule matches.more)
    then have "c # cs = [] @ (CHR ''_'' # d # xs @ ys) \<and> list_all P []
        \<and> matches (Star (Then underscore (OneOrMore (Class P)))) (CHR ''_'' # d # xs @ ys)"
      using p cs by simp
    then have "\<exists>xs ys. c # cs = xs @ ys \<and> list_all P xs
        \<and> matches (Star (Then underscore (OneOrMore (Class P)))) ys"
      by blast
    then show ?thesis using p by simp
  qed
qed

lemma snakeTail_regex:
  assumes "\<not> P CHR ''_''"
  shows "snakeTail P False s
     \<longleftrightarrow> matches (Then (Star (Class P)) (Star (Then underscore (OneOrMore (Class P))))) s"
proof
  assume "snakeTail P False s"
  from snakeTail_groups_split [OF this] show
    "matches (Then (Star (Class P)) (Star (Then underscore (OneOrMore (Class P))))) s"
    by (auto simp: matches_Then matches_Star_Class)
next
  assume "matches (Then (Star (Class P)) (Star (Then underscore (OneOrMore (Class P))))) s"
  then obtain xs ys where s: "s = xs @ ys" "list_all P xs"
    and ys: "matches (Star (Then underscore (OneOrMore (Class P)))) ys"
    by (auto simp: matches_Then matches_Star_Class)
  have "snakeTail P False ys" using ys refl assms by (rule groups_snakeTail)
  then show "snakeTail P False s" using s by (simp add: snakeTail_class_run)
qed

lemma patterns_are_the_regexes:
  "camelPattern s = matches camelRegex s"
  "pascalPattern s = matches pascalRegex s"
  "upperSnakePattern s = matches upperSnakeRegex s"
  "lowerSnakePattern s = matches lowerSnakeRegex s"
proof -
  show "camelPattern s = matches camelRegex s"
    by (cases s) (auto simp: camelPattern_def camelRegex_def matches_Class_Then matches_Star_Class)
  show "pascalPattern s = matches pascalRegex s"
    by (cases s) (auto simp: pascalPattern_def pascalRegex_def matches_Class_Then matches_Star_Class)
  show "upperSnakePattern s = matches upperSnakeRegex s"
    unfolding upperSnakePattern_def upperSnakeRegex_def
    by (cases s) (auto simp: matches_Class_Then snakeTail_regex [of isUpperDigit, OF underscore_not_upperDigit])
  show "lowerSnakePattern s = matches lowerSnakeRegex s"
    unfolding lowerSnakePattern_def lowerSnakeRegex_def
    by (cases s) (auto simp: matches_Class_Then snakeTail_regex [of isLowerDigit, OF underscore_not_lowerDigit])
qed


section \<open>The transcoder on words\<close>

lemma upper_snake_join:
  assumes "ps \<noteq> []" "list_all pascalPattern ps"
  shows "upperSnakePattern (join ''_'' (map toUpperCase ps))"
proof -
  from assms obtain p qs where ps: "ps = p # qs" by (cases ps) auto
  from assms ps obtain c cs where p: "p = c # cs" "isUpper c" "list_all isAlnum cs"
    by (auto simp: pascalPattern_def split: list.splits)
  have cls: "list_all isUpperDigit (toUpperCase q)" if "pascalPattern q" for q
    using that
    by (auto simp: pascalPattern_def toUpperCase_def list_all_iff toUpper_class isUpper_isAlnum
          split: list.splits)
  have ne: "toUpperCase q \<noteq> []" if "pascalPattern q" for q
    using that by (auto simp: pascalPattern_def toUpperCase_def)
  have groups: "list_all (\<lambda>q. q \<noteq> [] \<and> list_all isUpperDigit q) (map toUpperCase qs)"
    using assms(2) ps cls ne by (auto simp: list_all_iff)
  have "list_all isUpperDigit (toUpperCase cs)"
    using p(3) by (auto simp: toUpperCase_def list_all_iff toUpper_class)
  then have "snakeTail isUpperDigit False
               (toUpperCase cs @ concat (map (\<lambda>q. ''_'' @ q) (map toUpperCase qs)))"
    using snakeTail_groups [OF underscore_not_upperDigit groups]
    by (simp add: snakeTail_class_run)
  then show ?thesis
    using p(2) by (simp add: ps p(1) join_Cons upperSnakePattern_def toUpperCase_def toUpper_upper)
qed

lemma lower_snake_join:
  assumes "ps \<noteq> []" "list_all pascalPattern ps"
  shows "lowerSnakePattern (join ''_'' (map toLowerCase ps))"
proof -
  from assms obtain p qs where ps: "ps = p # qs" by (cases ps) auto
  from assms ps obtain c cs where p: "p = c # cs" "isUpper c" "list_all isAlnum cs"
    by (auto simp: pascalPattern_def split: list.splits)
  have cls: "list_all isLowerDigit (toLowerCase q)" if "pascalPattern q" for q
    using that
    by (auto simp: pascalPattern_def toLowerCase_def list_all_iff toLower_class isUpper_isAlnum
          split: list.splits)
  have ne: "toLowerCase q \<noteq> []" if "pascalPattern q" for q
    using that by (auto simp: pascalPattern_def toLowerCase_def)
  have groups: "list_all (\<lambda>q. q \<noteq> [] \<and> list_all isLowerDigit q) (map toLowerCase qs)"
    using assms(2) ps cls ne by (auto simp: list_all_iff)
  have "list_all isLowerDigit (toLowerCase cs)"
    using p(3) by (auto simp: toLowerCase_def list_all_iff toLower_class)
  then have "snakeTail isLowerDigit False
               (toLowerCase cs @ concat (map (\<lambda>q. ''_'' @ q) (map toLowerCase qs)))"
    using snakeTail_groups [OF underscore_not_lowerDigit groups]
    by (simp add: snakeTail_class_run)
  then show ?thesis
    using p(2) by (simp add: ps p(1) join_Cons lowerSnakePattern_def toLowerCase_def toLower_upper)
qed

lemma camel_join:
  assumes "ps \<noteq> []" "list_all pascalPattern ps"
  shows "camelPattern (case ps of [] \<Rightarrow> [] | p # qs \<Rightarrow> toLowerCase p @ join [] qs)"
proof -
  from assms obtain p qs where ps: "ps = p # qs" by (cases ps) auto
  from assms ps obtain c cs where p: "p = c # cs" "isUpper c" "list_all isAlnum cs"
    by (auto simp: pascalPattern_def split: list.splits)
  have lower_alnum: "isAlnum (toLowerChar d)" if "isAlnum d" for d
    using toLower_class [OF that] by (auto simp: isLowerDigit_def isAlnum_def)
  have "list_all isAlnum (concat qs)"
    using assms(2) ps by (auto simp: list_all_iff dest: pascal_all_alnum)
  then show ?thesis
    using p
    by (auto simp: ps camelPattern_def toLowerCase_def toLower_upper join_empty_sep list_all_iff
          lower_alnum)
qed


section \<open>The name transcoder meets the pattern of its target style\<close>

text \<open>
  C5. For each of the four styles and every name that matches the PascalCase pattern of
  the classifier, \<open>/^[A-Z][a-zA-Z0-9]*$/\<close>, the name that \<open>styleNames\<close> returns is made of
  letters, digits and underscores only, and it matches the classifier's pattern of the
  style it was rendered in.
\<close>

theorem styleNames_style_total:
  assumes "pascalPattern n"
  shows "list_all isIdentChar (styleNames n style) \<and> stylePattern style (styleNames n style)"
proof -
  note parts = nameParts_pascal [OF assms]
  have "stylePattern style (styleNames n style)"
  proof (cases style)
    case camel
    then show ?thesis using camel_join parts by (simp add: styleNames_def)
  next
    case pascal
    then show ?thesis using assms by (simp add: styleNames_def)
  next
    case upper_snake
    then show ?thesis using upper_snake_join parts by (simp add: styleNames_def)
  next
    case lower_snake
    then show ?thesis using lower_snake_join parts by (simp add: styleNames_def)
  qed
  then show ?thesis by (simp add: stylePattern_ident)
qed

theorem styleNames_style_total_witness:
  "pascalPattern ''FooBarActor''
   \<and> styleNames ''FooBarActor'' lower_snake = ''foo_bar_actor''
   \<and> list_all isIdentChar (styleNames ''FooBarActor'' lower_snake)
   \<and> stylePattern lower_snake (styleNames ''FooBarActor'' lower_snake)
   \<and> styleNames ''FooBarActor'' camel = ''fooBarActor''
   \<and> list_all isIdentChar (styleNames ''FooBarActor'' camel)
   \<and> stylePattern camel (styleNames ''FooBarActor'' camel)"
proof -
  have h: "pascalPattern ''FooBarActor''" by code_simp
  have l: "styleNames ''FooBarActor'' lower_snake = ''foo_bar_actor''" by code_simp
  have c: "styleNames ''FooBarActor'' camel = ''fooBarActor''" by code_simp
  show ?thesis
    using h l c styleNames_style_total [OF h, of lower_snake] styleNames_style_total [OF h, of camel]
    by simp
qed


section \<open>The style classifier\<close>

lemma getNamingStyle_find:
  "getNamingStyleFromNamedItems items =
     (if items = [] then None else find (\<lambda>s. unanimous s items) styleOrder)"
  by (simp add: getNamingStyleFromNamedItems_def styleOrder_def unanimous_def)

lemma find_filter_hd:
  "find P xs = (case filter P xs of [] \<Rightarrow> None | x # ys \<Rightarrow> Some x)"
  by (induction xs) auto

lemma find_Some_holds: "find P xs = Some x \<Longrightarrow> x \<in> set xs \<and> P x"
  by (induction xs) (auto split: if_splits)

lemma find_matchedStyles:
  "find (\<lambda>s. unanimous s items) styleOrder
     = (case matchedStyles items of [] \<Rightarrow> None | s # ss \<Rightarrow> Some s)"
  unfolding matchedStyles_def by (rule find_filter_hd)

lemma styleFromKeys_find:
  "styleFromKeys cfg keys =
     (case find (\<lambda>v. v \<noteq> [] \<and> matchedStyles v \<noteq> []) (List.map_filter (\<lambda>key. key cfg) keys) of
        None \<Rightarrow> None
      | Some v \<Rightarrow> find (\<lambda>s. unanimous s v) styleOrder)"
proof (induction keys)
  case Nil
  then show ?case by (simp add: List.map_filter_simps)
next
  case (Cons key keys)
  show ?case
  proof (cases "key cfg")
    case None
    then show ?thesis using Cons by (simp add: List.map_filter_simps)
  next
    case (Some v)
    then show ?thesis using Cons
      by (auto simp: List.map_filter_simps getNamingStyle_find find_matchedStyles
            split: list.splits)
  qed
qed

lemma one_word_upper:
  assumes "upperSnakePattern s" "CHR ''_'' \<notin> set s"
  shows "pascalPattern s \<and> \<not> camelPattern s"
proof -
  from assms(1) obtain c cs where s: "s = c # cs" and c: "isUpper c"
    and t: "snakeTail isUpperDigit False cs"
    by (auto simp: upperSnakePattern_def split: list.splits)
  have "list_all isUpperDigit cs"
    using snakeTail_one_word [OF t] assms(2) s by simp
  then have "list_all isAlnum cs"
    by (auto simp: list_all_iff isUpperDigit_def isAlnum_def)
  then show ?thesis
    using c by (simp add: s pascalPattern_def camelPattern_def isUpper_not_isLower)
qed

lemma one_word_lower:
  assumes "lowerSnakePattern s" "CHR ''_'' \<notin> set s"
  shows "camelPattern s"
proof -
  from assms(1) obtain c cs where s: "s = c # cs" and c: "isLower c"
    and t: "snakeTail isLowerDigit False cs"
    by (auto simp: lowerSnakePattern_def split: list.splits)
  have "list_all isLowerDigit cs"
    using snakeTail_one_word [OF t] assms(2) s by simp
  then have "list_all isAlnum cs"
    by (auto simp: list_all_iff isLowerDigit_def isAlnum_def)
  then show ?thesis
    using c by (simp add: s camelPattern_def)
qed

text \<open>
  C2, as stated: the classifier returns the first category whose binding names are all
  consistent with exactly one of the four patterns. This fails where the patterns
  overlap. With the key-value bindings \<open>["FOO"]\<close> and the service bindings \<open>["foo_bar"]\<close>,
  the names of the first category match two patterns (PascalCase and UPPER_SNAKE_CASE),
  those of the second match exactly one (lower_snake_case), and the classifier answers
  \<open>pascal\<close> from the first category.
\<close>

theorem classifier_exactly_one_counterexample:
  "categories overlapConfig = [[\<lparr>binding = ''FOO''\<rparr>], [\<lparr>binding = ''foo_bar''\<rparr>]]
   \<and> matchedStyles [\<lparr>binding = ''FOO''\<rparr>] = [pascal, upper_snake]
   \<and> matchedStyles [\<lparr>binding = ''foo_bar''\<rparr>] = [lower_snake]
   \<and> styleFromKeys overlapConfig bindingKeys = Some pascal"
  by code_simp

text \<open>
  C2, amended. Over the categories that the configuration has, in the order
  \<open>kv_namespaces\<close>, \<open>services\<close>, \<open>d1_databases\<close>, \<open>vectorize\<close>, the classifier takes the
  first category that has a binding and whose binding names all match at least one
  common pattern, and returns the first pattern, in the order camel, pascal,
  upper_snake, lower_snake, that all its names match. A category without bindings is
  passed over. The answer is undetermined exactly when every category is empty or
  matches no pattern unanimously. In particular, when the names of that first category
  match one pattern only, this pattern is the answer.
\<close>

theorem classifier_first_unanimous_category:
  "styleFromKeys cfg bindingKeys =
     (case find (\<lambda>v. v \<noteq> [] \<and> matchedStyles v \<noteq> []) (categories cfg) of
        None \<Rightarrow> None
      | Some v \<Rightarrow> find (\<lambda>s. unanimous s v) styleOrder)
   \<and> (styleFromKeys cfg bindingKeys = None
        \<longleftrightarrow> (\<forall>v \<in> set (categories cfg). v = [] \<or> matchedStyles v = []))
   \<and> (categories cfg = pre @ v # post \<and> (\<forall>u \<in> set pre. u = [] \<or> matchedStyles u = [])
        \<and> v \<noteq> [] \<and> matchedStyles v = s # others
      \<longrightarrow> styleFromKeys cfg bindingKeys = Some s)"
proof -
  have eq: "styleFromKeys cfg bindingKeys =
     (case find (\<lambda>v. v \<noteq> [] \<and> matchedStyles v \<noteq> []) (categories cfg) of
        None \<Rightarrow> None
      | Some v \<Rightarrow> find (\<lambda>s. unanimous s v) styleOrder)"
    by (simp add: styleFromKeys_find categories_def)
  have none: "styleFromKeys cfg bindingKeys = None
        \<longleftrightarrow> (\<forall>v \<in> set (categories cfg). v = [] \<or> matchedStyles v = [])"
  proof (cases "find (\<lambda>v. v \<noteq> [] \<and> matchedStyles v \<noteq> []) (categories cfg)")
    case None
    then have "\<forall>v \<in> set (categories cfg). \<not> (v \<noteq> [] \<and> matchedStyles v \<noteq> [])"
      by (simp add: find_None_iff)
    then show ?thesis unfolding eq None by auto
  next
    case (Some v)
    from find_Some_holds [OF Some] show ?thesis
      unfolding eq Some by (auto simp: find_matchedStyles split: list.splits)
  qed
  have first: "styleFromKeys cfg bindingKeys = Some s"
    if "categories cfg = pre @ v # post" "\<forall>u \<in> set pre. u = [] \<or> matchedStyles u = []"
       "v \<noteq> []" "matchedStyles v = s # others"
  proof -
    have "find (\<lambda>v. v \<noteq> [] \<and> matchedStyles v \<noteq> []) (pre @ v # post) = Some v"
      using that(2-4) by (induction pre) auto
    then show ?thesis using that by (simp add: eq find_matchedStyles)
  qed
  show ?thesis using eq none first by blast
qed

theorem classifier_first_unanimous_category_witness:
  "categories kvConfig = [] @ [\<lparr>binding = ''KV_ONE''\<rparr>, \<lparr>binding = ''KV_TWO''\<rparr>] # []
   \<and> matchedStyles [\<lparr>binding = ''KV_ONE''\<rparr>, \<lparr>binding = ''KV_TWO''\<rparr>] = upper_snake # []
   \<and> styleFromKeys kvConfig bindingKeys = Some upper_snake
   \<and> categories overlapConfig = [] @ [\<lparr>binding = ''FOO''\<rparr>] # [[\<lparr>binding = ''foo_bar''\<rparr>]]
   \<and> matchedStyles [\<lparr>binding = ''FOO''\<rparr>] = pascal # [upper_snake]
   \<and> styleFromKeys overlapConfig bindingKeys = Some pascal
   \<and> categories bareConfig = [[]]
   \<and> styleFromKeys bareConfig bindingKeys = None"
proof -
  have k1: "categories kvConfig = [] @ [\<lparr>binding = ''KV_ONE''\<rparr>, \<lparr>binding = ''KV_TWO''\<rparr>] # []"
    by code_simp
  have k2: "matchedStyles [\<lparr>binding = ''KV_ONE''\<rparr>, \<lparr>binding = ''KV_TWO''\<rparr>] = upper_snake # []"
    by code_simp
  have o1: "categories overlapConfig = [] @ [\<lparr>binding = ''FOO''\<rparr>] # [[\<lparr>binding = ''foo_bar''\<rparr>]]"
    by code_simp
  have o2: "matchedStyles [\<lparr>binding = ''FOO''\<rparr>] = pascal # [upper_snake]"
    by code_simp
  have b1: "categories bareConfig = [[]]"
    by code_simp
  have b2: "\<forall>v \<in> set (categories bareConfig). v = [] \<or> matchedStyles v = []"
    by (simp add: b1)
  have r1: "styleFromKeys kvConfig bindingKeys = Some upper_snake"
    using k1 k2
      classifier_first_unanimous_category [where cfg = kvConfig and pre = "[]"
        and v = "[\<lparr>binding = ''KV_ONE''\<rparr>, \<lparr>binding = ''KV_TWO''\<rparr>]" and post = "[]"
        and s = upper_snake and others = "[]", THEN conjunct2, THEN conjunct2]
    by simp
  have r2: "styleFromKeys overlapConfig bindingKeys = Some pascal"
    using o1 o2
      classifier_first_unanimous_category [where cfg = overlapConfig and pre = "[]"
        and v = "[\<lparr>binding = ''FOO''\<rparr>]" and post = "[[\<lparr>binding = ''foo_bar''\<rparr>]]"
        and s = pascal and others = "[upper_snake]", THEN conjunct2, THEN conjunct2]
    by simp
  have r3: "styleFromKeys bareConfig bindingKeys = None"
    using b2
      classifier_first_unanimous_category [where cfg = bareConfig, THEN conjunct2, THEN conjunct1]
    by simp
  show ?thesis
    using k1 k2 o1 o2 b1 r1 r2 r3 by simp
qed

text \<open>
  C9. Within a category the patterns are tried in the fixed order camel, pascal,
  upper_snake, lower_snake and the first that every name matches is returned. So
  single-word upper-case names (they match both the PascalCase and the UPPER_SNAKE_CASE
  pattern), such as \<open>["FOO"]\<close>, are classified pascal, and single-word lower-case names
  (they match both the camelCase and the lower_snake_case pattern), such as \<open>["foo"]\<close>,
  are classified camel.
\<close>

theorem pattern_overlap_resolved_in_order:
  "getNamingStyleFromNamedItems items =
     (if items = [] then None else find (\<lambda>s. unanimous s items) styleOrder)
   \<and> styleOrder = [camel, pascal, upper_snake, lower_snake]
   \<and> (items \<noteq> [] \<and> (\<forall>i \<in> set items. upperSnakePattern (binding i) \<and> CHR ''_'' \<notin> set (binding i))
        \<longrightarrow> unanimous pascal items \<and> unanimous upper_snake items
            \<and> getNamingStyleFromNamedItems items = Some pascal)
   \<and> (items \<noteq> [] \<and> (\<forall>i \<in> set items. lowerSnakePattern (binding i) \<and> CHR ''_'' \<notin> set (binding i))
        \<longrightarrow> unanimous camel items \<and> unanimous lower_snake items
            \<and> getNamingStyleFromNamedItems items = Some camel)"
proof -
  have up: "unanimous pascal items \<and> unanimous upper_snake items
            \<and> getNamingStyleFromNamedItems items = Some pascal"
    if ne: "items \<noteq> []"
    and all: "\<forall>i \<in> set items. upperSnakePattern (binding i) \<and> CHR ''_'' \<notin> set (binding i)"
  proof -
    have p: "\<forall>i \<in> set items. pascalPattern (binding i) \<and> \<not> camelPattern (binding i)"
      using all one_word_upper by blast
    obtain i where "i \<in> set items" using ne by (cases items) auto
    then have "\<not> list_all (\<lambda>item. camelPattern (binding item)) items"
      using p by (auto simp: list_all_iff)
    then show ?thesis
      using ne p all by (simp add: getNamingStyleFromNamedItems_def unanimous_def list_all_iff)
  qed
  have low: "unanimous camel items \<and> unanimous lower_snake items
            \<and> getNamingStyleFromNamedItems items = Some camel"
    if ne: "items \<noteq> []"
    and all: "\<forall>i \<in> set items. lowerSnakePattern (binding i) \<and> CHR ''_'' \<notin> set (binding i)"
  proof -
    have p: "\<forall>i \<in> set items. camelPattern (binding i)"
      using all one_word_lower by blast
    then show ?thesis
      using ne all by (simp add: getNamingStyleFromNamedItems_def unanimous_def list_all_iff)
  qed
  show ?thesis using getNamingStyle_find [of items] up low by (simp add: styleOrder_def)
qed

theorem pattern_overlap_resolved_in_order_witness:
  "upperSnakePattern ''FOO'' \<and> CHR ''_'' \<notin> set ''FOO''
   \<and> unanimous pascal [\<lparr>binding = ''FOO''\<rparr>]
   \<and> unanimous upper_snake [\<lparr>binding = ''FOO''\<rparr>]
   \<and> getNamingStyleFromNamedItems [\<lparr>binding = ''FOO''\<rparr>] = Some pascal
   \<and> lowerSnakePattern ''foo'' \<and> CHR ''_'' \<notin> set ''foo''
   \<and> unanimous camel [\<lparr>binding = ''foo''\<rparr>]
   \<and> unanimous lower_snake [\<lparr>binding = ''foo''\<rparr>]
   \<and> getNamingStyleFromNamedItems [\<lparr>binding = ''foo''\<rparr>] = Some camel"
proof -
  have u: "upperSnakePattern ''FOO''" by code_simp
  have l: "lowerSnakePattern ''foo''" by code_simp
  have hu: "[\<lparr>binding = ''FOO''\<rparr>] \<noteq> []
    \<and> (\<forall>i \<in> set [\<lparr>binding = ''FOO''\<rparr>]. upperSnakePattern (binding i) \<and> CHR ''_'' \<notin> set (binding i))"
    using u by simp
  have hl: "[\<lparr>binding = ''foo''\<rparr>] \<noteq> []
    \<and> (\<forall>i \<in> set [\<lparr>binding = ''foo''\<rparr>]. lowerSnakePattern (binding i) \<and> CHR ''_'' \<notin> set (binding i))"
    using l by simp
  note upper = pattern_overlap_resolved_in_order [of "[\<lparr>binding = ''FOO''\<rparr>]",
      THEN conjunct2, THEN conjunct2, THEN conjunct1, THEN mp, OF hu]
  note lower = pattern_overlap_resolved_in_order [of "[\<lparr>binding = ''foo''\<rparr>]",
      THEN conjunct2, THEN conjunct2, THEN conjunct2, THEN mp, OF hl]
  show ?thesis
    using u l upper lower by simp
qed

text \<open>
  C7. With the key-value bindings \<open>["KV_ONE", "KV_TWO"]\<close>, whatever the rest of the
  configuration, the classifier answers \<open>upper_snake\<close> without asking the operator, and
  under that style the class \<open>FooBarActor\<close> gets the binding name \<open>FOO_BAR_ACTOR\<close>.
\<close>

theorem kv_upper_snake_scenario:
  "getNamingStyleFromNamedItems [\<lparr>binding = ''KV_ONE''\<rparr>, \<lparr>binding = ''KV_TWO''\<rparr>] = Some upper_snake
   \<and> styleFromKeys (cfg\<lparr>kv_namespaces := Some [\<lparr>binding = ''KV_ONE''\<rparr>, \<lparr>binding = ''KV_TWO''\<rparr>]\<rparr>)
        bindingKeys = Some upper_snake
   \<and> getNamingStyleFromOtherBindings
        (cfg\<lparr>kv_namespaces := Some [\<lparr>binding = ''KV_ONE''\<rparr>, \<lparr>binding = ''KV_TWO''\<rparr>]\<rparr>) oper
       = ([Info_detected upper_snake], Inr upper_snake)
   \<and> styleNames ''FooBarActor'' upper_snake = ''FOO_BAR_ACTOR''"
proof -
  have k: "getNamingStyleFromNamedItems [\<lparr>binding = ''KV_ONE''\<rparr>, \<lparr>binding = ''KV_TWO''\<rparr>]
             = Some upper_snake"
    by code_simp
  have n: "styleNames ''FooBarActor'' upper_snake = ''FOO_BAR_ACTOR''" by code_simp
  show ?thesis
    using k n by (simp add: getNamingStyleFromOtherBindings_def bindingKeys_def)
qed


section \<open>Reconciliation\<close>

text \<open>
  C6. The net-new names are the discovered names that are no existing binding name:
  as a set, the difference of the two sets, so the order of either list does not matter
  to which names are kept. Intersecting the discovered names with the result gives the
  result again, and filtering the result a second time changes nothing.
\<close>

theorem reconciliation_set_difference:
  "set (netNew existing discovered) = set discovered - set existing
   \<and> set discovered \<inter> set (netNew existing discovered) = set (netNew existing discovered)
   \<and> filter (\<lambda>n. n \<in> set (netNew existing discovered)) discovered = netNew existing discovered
   \<and> netNew existing (netNew existing discovered) = netNew existing discovered
   \<and> (set existing' = set existing \<longrightarrow> netNew existing' discovered = netNew existing discovered)
   \<and> (set existing' = set existing \<and> set discovered' = set discovered
        \<longrightarrow> set (netNew existing' discovered') = set (netNew existing discovered))"
proof -
  have a: "set (netNew e d) = set d - set e" for e d :: "string list"
    by (auto simp: netNew_def)
  have b: "filter (\<lambda>n. n \<in> set (netNew existing discovered)) discovered = netNew existing discovered"
    unfolding netNew_def by (rule filter_cong [OF refl]) auto
  have c: "netNew existing (netNew existing discovered) = netNew existing discovered"
    by (simp add: netNew_def)
  have d: "netNew existing' discovered = netNew existing discovered" if "set existing' = set existing"
    using that by (simp add: netNew_def)
  show ?thesis using a b c d by auto
qed

theorem reconciliation_set_difference_witness:
  "set [''Counter'', ''Counter''] = set [''Counter'']
   \<and> set [''ChatRoom'', ''Counter''] = set [''Counter'', ''ChatRoom'']
   \<and> netNew [''Counter''] [''Counter'', ''ChatRoom''] = [''ChatRoom'']
   \<and> netNew [''Counter'', ''Counter''] [''Counter'', ''ChatRoom''] = netNew [''Counter''] [''Counter'', ''ChatRoom'']
   \<and> set (netNew [''Counter'', ''Counter''] [''ChatRoom'', ''Counter''])
       = set (netNew [''Counter''] [''Counter'', ''ChatRoom''])"
proof -
  have h1: "set [''Counter'', ''Counter''] = set [''Counter'']" by simp
  have h2: "set [''ChatRoom'', ''Counter''] = set [''Counter'', ''ChatRoom'']" by auto
  have v: "netNew [''Counter''] [''Counter'', ''ChatRoom''] = [''ChatRoom'']" by code_simp
  show ?thesis
    using h1 h2 v
      reconciliation_set_difference [of "[''Counter'']" "[''Counter'', ''ChatRoom'']"
        "[''Counter'', ''Counter'']" "[''ChatRoom'', ''Counter'']"]
    by blast
qed


section \<open>The runs of the script\<close>

lemma patchCalls_append: "patchCalls (xs @ ys) = patchCalls xs @ patchCalls ys"
  by (induction xs rule: patchCalls.induct) simp_all

lemma patchCalls_log: "patchCalls (map Log_item xs) = []"
  by (induction xs) simp_all

lemma getNamingStyle_resolved:
  "getNamingStyleFromOtherBindings cfg oper =
     (asked cfg, case resolvedStyle cfg oper of None \<Rightarrow> Inl 1 | Some s \<Rightarrow> Inr s)"
  by (simp add: getNamingStyleFromOtherBindings_def asked_def resolvedStyle_def assertNotCancelled_def
        split: option.splits answer.splits)

lemma declareObjects_found:
  assumes "resolveDefaultType cfg env = Inr t" "candidateNames t = Some discovered"
  shows "declareObjects cfg env oper =
     (let items = netNew (existingNames cfg) discovered in
      case resolvedStyle cfg oper of
        None \<Rightarrow> (report items @ asked cfg, Exited 1)
      | Some style \<Rightarrow>
          (case confirm_answer oper of
             Cancelled \<Rightarrow> (report items @ asked cfg @ [Confirm_prompt (length items)], Exited 1)
           | Answered False \<Rightarrow> (report items @ asked cfg @ [Confirm_prompt (length items)], Exited 0)
           | Answered True \<Rightarrow>
               (case configPath cfg of
                  None \<Rightarrow> (report items @ asked cfg @ [Confirm_prompt (length items)],
                            Threw ''No config path found'')
                | Some path \<Rightarrow>
                    (report items @ asked cfg @ [Confirm_prompt (length items),
                       Patch_config path (patchPayload items style (isoNow env))], Completed))))"
  using assms
  by (simp add: declareObjects_def getNamingStyle_resolved existingNames_def report_def Let_def
        assertNotCancelled_def split: option.splits answer.splits)

lemma declareObjects_not_found:
  "resolveDefaultType cfg env = Inr t \<Longrightarrow> candidateNames t = None \<Longrightarrow>
   declareObjects cfg env oper = ([], Threw ''No Durable Objects found in your Worker'')"
  by (simp add: declareObjects_def)

lemma declareObjects_setup_failed:
  "resolveDefaultType cfg env = Inl m \<Longrightarrow> declareObjects cfg env oper = ([], Threw m)"
  by (simp add: declareObjects_def)

lemma patchCalls_report: "patchCalls (report items) = []"
  by (simp add: report_def patchCalls_append patchCalls_log)

lemma patchCalls_asked: "patchCalls (asked cfg) = []"
  by (simp add: asked_def split: option.splits)

lemma confirm_not_in_report: "Confirm_prompt n \<notin> set (report items)" "Select_prompt \<notin> set (report items)"
  by (auto simp: report_def)

lemma confirm_not_in_asked: "Confirm_prompt n \<notin> set (asked cfg)"
  by (auto simp: asked_def split: option.splits)

lemma select_in_asked: "Select_prompt \<in> set (asked cfg) \<longleftrightarrow> styleFromKeys cfg bindingKeys = None"
  by (auto simp: asked_def split: option.splits)

lemma removeQuotes_no_quote: "CHR 0x22 \<notin> set (removeQuotes s)"
  by (simp add: removeQuotes_def)






text \<open>
  C4. When there are net-new names, the style is resolved, the operator confirms and the
  configuration has a path, the mutation collaborator is called once, with a delta that
  has one binding per net-new name, in order, named by \<open>styleNames\<close> under the resolved
  style and with the class identifier as \<open>class_name\<close>, and with exactly one migration,
  whose \<open>new_sqlite_classes\<close> are the net-new names and whose tag is the ISO timestamp,
  a hyphen, and the net-new names joined by hyphens.
\<close>

theorem planned_delta:
  assumes "resolveDefaultType cfg env = Inr t"
    and "candidateNames t = Some discovered"
    and "netNew (existingNames cfg) discovered = items"
    and "items \<noteq> []"
    and "resolvedStyle cfg oper = Some style"
    and "confirm_answer oper = Answered True"
    and "configPath cfg = Some path"
  shows "\<exists>d. patchCalls (fst (declareObjects cfg env oper)) = [(path, d)]
           \<and> length (durable_objects d) = length items
           \<and> (\<forall>i < length items.
                 durable_objects d ! i
                   = \<lparr> name = styleNames (items ! i) style, class_name = items ! i \<rparr>)
           \<and> migrations d
               = [\<lparr> tag = isoNow env @ ''-'' @ join ''-'' items, new_sqlite_classes = items \<rparr>]"
  using assms
  by (simp add: declareObjects_found [OF assms(1,2)] patchCalls_append patchCalls_report
        patchCalls_asked patchPayload_def)

theorem planned_delta_witness:
  "resolveDefaultType kvConfig (environmentOf counterAndChatRoom) = Inr counterAndChatRoom
   \<and> candidateNames counterAndChatRoom = Some [''Counter'', ''ChatRoom'']
   \<and> existingNames kvConfig = [''Counter'']
   \<and> netNew (existingNames kvConfig) [''Counter'', ''ChatRoom''] = [''ChatRoom'']
   \<and> resolvedStyle kvConfig (operatorOf Cancelled (Answered True)) = Some upper_snake
   \<and> confirm_answer (operatorOf Cancelled (Answered True)) = Answered True
   \<and> configPath kvConfig = Some ''wrangler.jsonc''
   \<and> patchCalls (fst (declareObjects kvConfig (environmentOf counterAndChatRoom)
                        (operatorOf Cancelled (Answered True))))
       = [(''wrangler.jsonc'',
           \<lparr> durable_objects = [\<lparr> name = ''CHAT_ROOM'', class_name = ''ChatRoom'' \<rparr>],
             migrations = [\<lparr> tag = ''2025-01-01T00:00:00.000Z-ChatRoom'',
                             new_sqlite_classes = [''ChatRoom''] \<rparr>] \<rparr>)]"
proof -
  have h1: "resolveDefaultType kvConfig (environmentOf counterAndChatRoom) = Inr counterAndChatRoom"
    by code_simp
  have h2: "candidateNames counterAndChatRoom = Some [''Counter'', ''ChatRoom'']" by code_simp
  have h3: "netNew (existingNames kvConfig) [''Counter'', ''ChatRoom''] = [''ChatRoom'']"
    by code_simp
  have h4: "[''ChatRoom''] \<noteq> []" by simp
  have h5: "resolvedStyle kvConfig (operatorOf Cancelled (Answered True)) = Some upper_snake"
    by code_simp
  have h6: "confirm_answer (operatorOf Cancelled (Answered True)) = Answered True"
    by (simp add: operatorOf_def)
  have h7: "configPath kvConfig = Some ''wrangler.jsonc''" by (simp add: kvConfig_def)
  have e: "existingNames kvConfig = [''Counter'']" by code_simp
  have n: "styleNames ''ChatRoom'' upper_snake = ''CHAT_ROOM''" by code_simp
  have i: "isoNow (environmentOf counterAndChatRoom) = ''2025-01-01T00:00:00.000Z''"
    by (simp add: environmentOf_def)
  from planned_delta [OF h1 h2 h3 h4 h5 h6 h7]
  obtain d where d: "patchCalls (fst (declareObjects kvConfig (environmentOf counterAndChatRoom)
                        (operatorOf Cancelled (Answered True)))) = [(''wrangler.jsonc'', d)]"
    "length (durable_objects d) = 1"
    "durable_objects d ! 0 = \<lparr> name = styleNames ''ChatRoom'' upper_snake, class_name = ''ChatRoom'' \<rparr>"
    "migrations d = [\<lparr> tag = isoNow (environmentOf counterAndChatRoom) @ ''-'' @ join ''-'' [''ChatRoom''],
                       new_sqlite_classes = [''ChatRoom''] \<rparr>]"
    by auto
  have "durable_objects d = [\<lparr> name = ''CHAT_ROOM'', class_name = ''ChatRoom'' \<rparr>]"
    using d(2,3) n by (cases "durable_objects d") auto
  then have "d = \<lparr> durable_objects = [\<lparr> name = ''CHAT_ROOM'', class_name = ''ChatRoom'' \<rparr>],
             migrations = [\<lparr> tag = ''2025-01-01T00:00:00.000Z-ChatRoom'',
                             new_sqlite_classes = [''ChatRoom''] \<rparr>] \<rparr>"
    using d(4) i by (cases d) simp
  then show ?thesis using h1 h2 h3 h5 h6 h7 e d(1) by simp
qed

text \<open>
  C1, as stated: when no discovered name is net-new, the run ends with no prompt, no call
  of \<open>patchConfig\<close> and status 0. The script has no such exit. With the only discovered
  class \<open>Counter\<close> already bound, it reports 0 names, still asks for confirmation and, on
  a yes, calls \<open>patchConfig\<close>. And when the type checker yields no candidate at all
  (the default export has type \<open>never\<close>), the script throws, which ends the process
  with status 1.
\<close>

theorem empty_net_new_counterexample:
  "candidateNames counterOnly = Some [''Counter'']
   \<and> netNew (existingNames kvConfig) [''Counter''] = []
   \<and> declareObjects kvConfig (environmentOf counterOnly) (operatorOf Cancelled (Answered True))
       = ([Warn_found 0, Log_blank, Info_detected upper_snake, Confirm_prompt 0,
           Patch_config ''wrangler.jsonc''
             \<lparr> durable_objects = [],
               migrations = [\<lparr> tag = ''2025-01-01T00:00:00.000Z-'', new_sqlite_classes = [] \<rparr>] \<rparr>],
          Completed)
   \<and> candidateNames (OtherType ''never'') = None
   \<and> declareObjects kvConfig (environmentOf (OtherType ''never''))
         (operatorOf Cancelled (Answered True))
       = ([], Threw ''No Durable Objects found in your Worker'')
   \<and> exitStatus (Threw ''No Durable Objects found in your Worker'') = 1"
  by code_simp

text \<open>
  C1, amended. When the type of the default export gives no candidate list, the run
  throws \<open>No Durable Objects found in your Worker\<close> with no prompt and no call of
  \<open>patchConfig\<close>. When candidates are found and none is net-new, the run reports 0 names
  and lists none; \<open>patchConfig\<close> is not called unless the operator has confirmed at the
  confirmation prompt, and any delta it is given has no binding and declares no class;
  a cancelled prompt ends the run with status 1 and a declined confirmation with
  status 0, in both cases without a call of \<open>patchConfig\<close>.
\<close>

theorem empty_net_new_run:
  "(resolveDefaultType cfg env = Inr t \<and> candidateNames t = None
      \<longrightarrow> declareObjects cfg env oper = ([], Threw ''No Durable Objects found in your Worker''))
   \<and> (resolveDefaultType cfg env = Inr t \<and> candidateNames t = Some discovered
        \<and> netNew (existingNames cfg) discovered = [] \<and> declareObjects cfg env oper = (evs, e)
      \<longrightarrow> take 2 evs = [Warn_found 0, Log_blank]
        \<and> (\<forall>x. Log_item x \<notin> set evs)
        \<and> (resolvedStyle cfg oper = None \<longrightarrow> e = Exited 1 \<and> patchCalls evs = [])
        \<and> (patchCalls evs \<noteq> []
              \<longrightarrow> confirm_answer oper = Answered True \<and> Confirm_prompt 0 \<in> set evs)
        \<and> (\<forall>path d. (path, d) \<in> set (patchCalls evs)
              \<longrightarrow> durable_objects d = [] \<and> (\<forall>m \<in> set (migrations d). new_sqlite_classes m = []))
        \<and> (resolvedStyle cfg oper \<noteq> None \<and> confirm_answer oper = Answered False
              \<longrightarrow> e = Exited 0 \<and> patchCalls evs = [])
        \<and> (resolvedStyle cfg oper \<noteq> None \<and> confirm_answer oper = Cancelled
              \<longrightarrow> e = Exited 1 \<and> patchCalls evs = []))"
proof -
  have none: "declareObjects cfg env oper = ([], Threw ''No Durable Objects found in your Worker'')"
    if "resolveDefaultType cfg env = Inr t" "candidateNames t = None"
    using that by (rule declareObjects_not_found)
  have log: "Log_item x \<notin> set (asked cfg)" for x
    by (simp add: asked_def split: option.splits)
  have some: "take 2 evs = [Warn_found 0, Log_blank]
        \<and> (\<forall>x. Log_item x \<notin> set evs)
        \<and> (resolvedStyle cfg oper = None \<longrightarrow> e = Exited 1 \<and> patchCalls evs = [])
        \<and> (patchCalls evs \<noteq> []
              \<longrightarrow> confirm_answer oper = Answered True \<and> Confirm_prompt 0 \<in> set evs)
        \<and> (\<forall>path d. (path, d) \<in> set (patchCalls evs)
              \<longrightarrow> durable_objects d = [] \<and> (\<forall>m \<in> set (migrations d). new_sqlite_classes m = []))
        \<and> (resolvedStyle cfg oper \<noteq> None \<and> confirm_answer oper = Answered False
              \<longrightarrow> e = Exited 0 \<and> patchCalls evs = [])
        \<and> (resolvedStyle cfg oper \<noteq> None \<and> confirm_answer oper = Cancelled
              \<longrightarrow> e = Exited 1 \<and> patchCalls evs = [])"
    if r: "resolveDefaultType cfg env = Inr t" and c: "candidateNames t = Some discovered"
      and n: "netNew (existingNames cfg) discovered = []"
      and d: "declareObjects cfg env oper = (evs, e)"
    using d n log
    apply (simp add: declareObjects_found [OF r c] Let_def
          split: option.splits answer.splits bool.splits if_splits)
    apply (auto simp: report_def patchCalls_append patchCalls_asked patchPayload_def)
    done
  show ?thesis using none some by blast
qed

theorem empty_net_new_run_witness:
  "resolveDefaultType kvConfig (environmentOf (OtherType ''never'')) = Inr (OtherType ''never'')
   \<and> candidateNames (OtherType ''never'') = None
   \<and> declareObjects kvConfig (environmentOf (OtherType ''never''))
        (operatorOf Cancelled (Answered False))
       = ([], Threw ''No Durable Objects found in your Worker'')
   \<and> resolveDefaultType kvConfig (environmentOf counterOnly) = Inr counterOnly
   \<and> candidateNames counterOnly = Some [''Counter'']
   \<and> netNew (existingNames kvConfig) [''Counter''] = []
   \<and> declareObjects kvConfig (environmentOf counterOnly) (operatorOf Cancelled (Answered False))
       = ([Warn_found 0, Log_blank, Info_detected upper_snake, Confirm_prompt 0], Exited 0)
   \<and> resolvedStyle kvConfig (operatorOf Cancelled (Answered False)) \<noteq> None
   \<and> confirm_answer (operatorOf Cancelled (Answered False)) = Answered False
   \<and> take 2 [Warn_found 0, Log_blank, Info_detected upper_snake, Confirm_prompt 0]
       = [Warn_found 0, Log_blank]
   \<and> patchCalls [Warn_found 0, Log_blank, Info_detected upper_snake, Confirm_prompt 0] = []"
proof -
  have a1: "resolveDefaultType kvConfig (environmentOf (OtherType ''never'')) = Inr (OtherType ''never'')"
    by code_simp
  have a2: "candidateNames (OtherType ''never'') = None" by code_simp
  have b1: "resolveDefaultType kvConfig (environmentOf counterOnly) = Inr counterOnly" by code_simp
  have b2: "candidateNames counterOnly = Some [''Counter'']" by code_simp
  have b3: "netNew (existingNames kvConfig) [''Counter''] = []" by code_simp
  have b4: "declareObjects kvConfig (environmentOf counterOnly) (operatorOf Cancelled (Answered False))
       = ([Warn_found 0, Log_blank, Info_detected upper_snake, Confirm_prompt 0], Exited 0)"
    by code_simp
  have b5: "resolvedStyle kvConfig (operatorOf Cancelled (Answered False)) \<noteq> None" by code_simp
  have b6: "confirm_answer (operatorOf Cancelled (Answered False)) = Answered False"
    by (simp add: operatorOf_def)
  show ?thesis
    using a1 a2 b1 b2 b3 b4 b5 b6
      empty_net_new_run [where cfg = kvConfig and env = "environmentOf (OtherType ''never'')"
        and t = "OtherType ''never''" and oper = "operatorOf Cancelled (Answered False)"]
      empty_net_new_run [where cfg = kvConfig and env = "environmentOf counterOnly"
        and t = counterOnly and discovered = "[''Counter'']"
        and oper = "operatorOf Cancelled (Answered False)"
        and evs = "[Warn_found 0, Log_blank, Info_detected upper_snake, Confirm_prompt 0]"
        and e = "Exited 0"]
    by simp
qed

text \<open>
  C8. Cancelling the style prompt or the confirmation prompt ends the process with
  status 1 right after that prompt, and \<open>patchConfig\<close> has not been called. \<open>patchConfig\<close>
  is called at most once in a run, only after the confirmation prompt was answered yes,
  as the last thing the run does, and with the complete delta: the payload built from
  all net-new names, the resolved style and the timestamp.
\<close>

theorem cancellation_and_single_mutation:
  assumes "declareObjects cfg env oper = (evs, e)"
  shows "(Select_prompt \<in> set evs \<and> select_answer oper = Cancelled
            \<longrightarrow> e = Exited 1 \<and> patchCalls evs = [] \<and> last evs = Select_prompt)
       \<and> (Confirm_prompt n \<in> set evs \<and> confirm_answer oper = Cancelled
            \<longrightarrow> e = Exited 1 \<and> patchCalls evs = [] \<and> last evs = Confirm_prompt n)
       \<and> (patchCalls evs \<noteq> []
            \<longrightarrow> confirm_answer oper = Answered True
               \<and> (\<exists>t discovered style path before.
                     resolveDefaultType cfg env = Inr t
                   \<and> candidateNames t = Some discovered
                   \<and> resolvedStyle cfg oper = Some style
                   \<and> configPath cfg = Some path
                   \<and> patchCalls before = []
                   \<and> evs = before
                       @ [Confirm_prompt (length (netNew (existingNames cfg) discovered)),
                          Patch_config path
                            (patchPayload (netNew (existingNames cfg) discovered) style (isoNow env))]
                   \<and> e = Completed))
       \<and> length (patchCalls evs) \<le> 1"
proof (cases "resolveDefaultType cfg env")
  case (Inl m)
  then show ?thesis using assms by (auto simp: declareObjects_setup_failed)
next
  case (Inr t)
  show ?thesis
  proof (cases "candidateNames t")
    case None
    then show ?thesis using assms Inr by (auto simp: declareObjects_not_found)
  next
    case (Some discovered)
    have sel: "resolvedStyle cfg oper = None"
      if "Select_prompt \<in> set (asked cfg)" "select_answer oper = Cancelled"
      using that by (simp add: select_in_asked resolvedStyle_def)
    have nosel: "Select_prompt \<in> set (asked cfg) \<Longrightarrow> last (asked cfg) = Select_prompt"
      by (simp add: asked_def split: option.splits)
    have ne: "asked cfg \<noteq> []"
      by (simp add: asked_def split: option.splits)
    show ?thesis
      using assms sel nosel ne Inr Some
      apply (simp add: declareObjects_found [OF Inr Some] Let_def
            split: option.splits answer.splits bool.splits if_splits)
      apply (auto simp: patchCalls_append patchCalls_report
            patchCalls_asked confirm_not_in_report confirm_not_in_asked)
      done
  qed
qed

theorem cancellation_and_single_mutation_witness:
  "declareObjects bareConfig (environmentOf counterAndChatRoom) (operatorOf Cancelled (Answered True))
     = ([Warn_found 2, Log_item ''Counter'', Log_item ''ChatRoom'', Log_blank, Select_prompt],
        Exited 1)
   \<and> declareObjects kvConfig (environmentOf counterAndChatRoom) (operatorOf Cancelled Cancelled)
     = ([Warn_found 1, Log_item ''ChatRoom'', Log_blank, Info_detected upper_snake,
         Confirm_prompt 1], Exited 1)
   \<and> declareObjects kvConfig (environmentOf counterAndChatRoom)
        (operatorOf Cancelled (Answered True))
     = ([Warn_found 1, Log_item ''ChatRoom'', Log_blank, Info_detected upper_snake,
         Confirm_prompt 1,
         Patch_config ''wrangler.jsonc''
           (patchPayload [''ChatRoom''] upper_snake ''2025-01-01T00:00:00.000Z'')], Completed)
   \<and> resolvedStyle kvConfig (operatorOf Cancelled (Answered True)) = Some upper_snake
   \<and> confirm_answer (operatorOf Cancelled (Answered True)) = Answered True"
proof -
  have r1: "declareObjects bareConfig (environmentOf counterAndChatRoom)
              (operatorOf Cancelled (Answered True))
     = ([Warn_found 2, Log_item ''Counter'', Log_item ''ChatRoom'', Log_blank, Select_prompt],
        Exited 1)"
    by code_simp
  have r2: "declareObjects kvConfig (environmentOf counterAndChatRoom) (operatorOf Cancelled Cancelled)
     = ([Warn_found 1, Log_item ''ChatRoom'', Log_blank, Info_detected upper_snake,
         Confirm_prompt 1], Exited 1)"
    by code_simp
  have r3: "declareObjects kvConfig (environmentOf counterAndChatRoom)
        (operatorOf Cancelled (Answered True))
     = ([Warn_found 1, Log_item ''ChatRoom'', Log_blank, Info_detected upper_snake,
         Confirm_prompt 1,
         Patch_config ''wrangler.jsonc''
           (patchPayload [''ChatRoom''] upper_snake ''2025-01-01T00:00:00.000Z'')], Completed)"
    by code_simp
  have s: "resolvedStyle kvConfig (operatorOf Cancelled (Answered True)) = Some upper_snake"
    by code_simp
  show ?thesis
    using r1 r2 r3 s
      cancellation_and_single_mutation [OF r1, of 0]
      cancellation_and_single_mutation [OF r2, of 1]
      cancellation_and_single_mutation [OF r3, of 1]
    by (simp add: operatorOf_def)
qed

text \<open>
  C10. When the confirmation prompt is answered no, the process exits with status 0 and
  \<open>patchConfig\<close> is not called; when it is cancelled, the process exits with status 1.
\<close>

theorem decline_exits_zero:
  assumes "declareObjects cfg env oper = (evs, e)" "Confirm_prompt n \<in> set evs"
  shows "(confirm_answer oper = Answered False
            \<longrightarrow> e = Exited 0 \<and> exitStatus e = 0 \<and> patchCalls evs = [] \<and> last evs = Confirm_prompt n)
       \<and> (confirm_answer oper = Cancelled
            \<longrightarrow> e = Exited 1 \<and> exitStatus e = 1 \<and> patchCalls evs = [] \<and> last evs = Confirm_prompt n)"
proof (cases "resolveDefaultType cfg env")
  case (Inl m)
  then show ?thesis using assms by (simp add: declareObjects_setup_failed)
next
  case (Inr t)
  show ?thesis
  proof (cases "candidateNames t")
    case None
    then show ?thesis using assms Inr by (simp add: declareObjects_not_found)
  next
    case (Some discovered)
    show ?thesis
      using assms
      by (auto simp: declareObjects_found [OF Inr Some] Let_def patchCalls_append patchCalls_report
            patchCalls_asked confirm_not_in_report confirm_not_in_asked
            split: option.splits answer.splits bool.splits if_splits)
  qed
qed

theorem decline_exits_zero_witness:
  "declareObjects kvConfig (environmentOf counterAndChatRoom)
        (operatorOf Cancelled (Answered False))
     = ([Warn_found 1, Log_item ''ChatRoom'', Log_blank, Info_detected upper_snake,
         Confirm_prompt 1], Exited 0)
   \<and> Confirm_prompt 1 \<in> set [Warn_found 1, Log_item ''ChatRoom'', Log_blank,
         Info_detected upper_snake, Confirm_prompt 1]
   \<and> confirm_answer (operatorOf Cancelled (Answered False)) = Answered False
   \<and> exitStatus (Exited 0) = 0
   \<and> patchCalls [Warn_found 1, Log_item ''ChatRoom'', Log_blank,
         Info_detected upper_snake, Confirm_prompt 1] = []"
proof -
  have r: "declareObjects kvConfig (environmentOf counterAndChatRoom)
        (operatorOf Cancelled (Answered False))
     = ([Warn_found 1, Log_item ''ChatRoom'', Log_blank, Info_detected upper_snake,
         Confirm_prompt 1], Exited 0)"
    by code_simp
  have m: "Confirm_prompt 1 \<in> set [Warn_found 1, Log_item ''ChatRoom'', Log_blank,
         Info_detected upper_snake, Confirm_prompt 1]"
    by simp
  show ?thesis
    using r m decline_exits_zero [OF r m] by (simp add: operatorOf_def)
qed

end
